theory Spec2Isabelle
  imports Complex_Main "HOL-Library.Char_ord" "HOL-Library.List_Lexorder"
begin

section \<open>The video analyzer notebook (video_analyzer_phi3.ipynb)\<close>

text \<open>
  The notebook is a sequence of cells (Step 2 to Step 6 carry the pipeline) that share
  global variables and the working directory. Each cell is embedded as a function from the
  values it reads to the values it leaves behind; an exception raised in a cell is a value
  (\<open>Inl\<close>) and ends the run, as a raised exception ends a run of all cells.

  Conventions of the embedding:
  \<^item> Python \<open>int\<close> is \<open>int\<close>, counters that only count up from zero are \<open>nat\<close>;
  \<^item> the two numbers read from OpenCV (\<open>CAP_PROP_FPS\<close>, \<open>CAP_PROP_FRAME_COUNT\<close>) are
    finite doubles, taken as \<open>real\<close>; the only arithmetic on them, \<open>fps * 2\<close>, is exact on
    doubles, so nothing is rounded (a NaN or an infinite rate is outside the model);
  \<^item> Python \<open>str\<close> is \<open>string\<close>, one \<open>char\<close> per character (the one character of the
    notebook's own text beyond the range of \<open>char\<close>, the pictograph that opens the report,
    is written as its UTF-8 bytes); \<open>sorted\<close> on strings is the lexicographic order on
    character codes, which is the order of \<open>HOL-Library.List_Lexorder\<close> over
    \<open>HOL-Library.Char_ord\<close>;
  \<^item> the models, the decoders and the clock are parameters of the run (\<open>world\<close>).
\<close>

subsection \<open>Exceptions and the run of a cell\<close>

datatype py_error =
    RuntimeError string
  | ValueError string
  | FileNotFoundError string
  | AttributeError string
  | OtherError string

text \<open>
  What a run has done to the outside, in order: a cell entered (\<open>Step n\<close>), a frame file
  written, the audio file written, a model loaded or called, the report written.
\<close>

datatype event =
    Step nat
  | ImWrite string
  | WriteAudiofile
  | LoadWhisper
  | Transcribe
  | LoadPhi
  | AnalyzeImage string
  | WriteReport

type_synonym 'a exec = "event list \<times> (py_error + 'a)"

definition bind_exec :: "'a exec \<Rightarrow> ('a \<Rightarrow> 'b exec) \<Rightarrow> 'b exec" where
  "bind_exec m f =
     (case m of
        (l, Inl e) \<Rightarrow> (l, Inl e)
      | (l, Inr x) \<Rightarrow> (case f x of (l', r) \<Rightarrow> (l @ l', r)))"

subsection \<open>Python built-ins used by the cells\<close>

text \<open>\<open>int(x)\<close> on a float truncates toward zero.\<close>

definition py_int :: "real \<Rightarrow> int" where
  "py_int x = (if 0 \<le> x then \<lfloor>x\<rfloor> else \<lceil>x\<rceil>)"

text \<open>\<open>range(start, stop, step)\<close>: the elements in order; a zero step raises.\<close>

function range_up :: "int \<Rightarrow> int \<Rightarrow> int \<Rightarrow> int list" where
  "range_up i stop step =
     (if 0 < step \<and> i < stop then i # range_up (i + step) stop step else [])"
  by pat_completeness auto
termination
  by (relation "measure (\<lambda>(i, stop, step). nat (stop - i))") auto

function range_down :: "int \<Rightarrow> int \<Rightarrow> int \<Rightarrow> int list" where
  "range_down i stop step =
     (if step < 0 \<and> stop < i then i # range_down (i + step) stop step else [])"
  by pat_completeness auto
termination
  by (relation "measure (\<lambda>(i, stop, step). nat (i - stop))") auto

declare range_up.simps [simp del]
declare range_down.simps [simp del]

definition py_range :: "int \<Rightarrow> int \<Rightarrow> int \<Rightarrow> py_error + int list" where
  "py_range start stop step =
     (if step = 0 then Inl (ValueError ''range() arg 3 must not be zero'')
      else if 0 < step then Inr (range_up start stop step)
      else Inr (range_down start stop step))"

text \<open>\<open>str(n)\<close> for a non-negative integer: its decimal digits.\<close>

definition digit_char :: "nat \<Rightarrow> char" where
  "digit_char d = char_of (48 + d)"

function str_nat :: "nat \<Rightarrow> string" where
  "str_nat n = (if n < 10 then [digit_char n] else str_nat (n div 10) @ [digit_char (n mod 10)])"
  by pat_completeness auto
termination
  by (relation "measure (\<lambda>n. n)") auto

declare str_nat.simps [simp del]

text \<open>
  The format specification \<open>0wd\<close> (\<open>{saved_count:04d}\<close>, \<open>{int(mins):02d}\<close>) on a
  non-negative integer: the decimal digits, filled with zeros on the left up to width \<open>w\<close>,
  and never cut.
\<close>

definition format_0d :: "nat \<Rightarrow> nat \<Rightarrow> string" where
  "format_0d w n = replicate (w - length (str_nat n)) (CHR ''0'') @ str_nat n"

text \<open>\<open>s.endswith(t)\<close>, and the slice \<open>s[:k]\<close>.\<close>

definition endswith :: "string \<Rightarrow> string \<Rightarrow> bool" where
  "endswith s t = (length t \<le> length s \<and> drop (length s - length t) s = t)"

definition slice_to :: "nat \<Rightarrow> string \<Rightarrow> string" where
  "slice_to k s = take k s"

subsection \<open>The working directory\<close>

text \<open>
  The folder \<open>frames\<close>: its entries, a name and the image stored under it. \<open>cv2.imwrite\<close>
  replaces the content of an existing name and adds a new entry otherwise.
\<close>

type_synonym 'img folder = "(string \<times> 'img) list"

fun imwrite :: "string \<Rightarrow> 'img \<Rightarrow> 'img folder \<Rightarrow> 'img folder" where
  "imwrite name img [] = [(name, img)]"
| "imwrite name img (p # ps) =
     (if fst p = name then (name, img) # ps else p # imwrite name img ps)"

text \<open>
  \<open>glob.glob(f"{output_folder}/*.jpg")\<close>: the paths of the entries whose name ends in
  \<open>.jpg\<close> and does not start with a dot. The order in which the operating system lists
  them is not fixed; the cell sorts the result, and \<open>sort\<close> does not depend on it
  (lemma \<open>sorted_glob_any_order\<close>).
\<close>

definition output_folder :: string where
  "output_folder = ''frames''"

definition glob_match_jpg :: "string \<Rightarrow> bool" where
  "glob_match_jpg name = (endswith name ''.jpg'' \<and> take 1 name \<noteq> ''.'')"

definition glob_jpg :: "'img folder \<Rightarrow> string list" where
  "glob_jpg fol = map (\<lambda>name. output_folder @ ''/'' @ name) (filter glob_match_jpg (map fst fol))"

subsection \<open>The world of a run\<close>

text \<open>
  \<open>cv2.VideoCapture(video_path)\<close>: whether it opened, the two properties the cell reads,
  and \<open>read_at k\<close> for \<open>vidcap.set(cv2.CAP_PROP_POS_FRAMES, k)\<close> followed by
  \<open>vidcap.read()\<close> (\<open>None\<close> when \<open>success\<close> is false).
\<close>

record 'img VideoCapture =
  isOpened :: bool
  CAP_PROP_FPS :: real
  CAP_PROP_FRAME_COUNT :: real
  read_at :: "int \<Rightarrow> 'img option"

text \<open>
  \<open>VideoFileClip(video_path)\<close>: its attribute \<open>audio\<close> is Python's \<open>None\<close> when the
  container has no audio stream; \<open>duration_1f\<close> is \<open>video.duration\<close> as the report
  prints it (\<open>:.1f\<close>).
\<close>

record 'aud VideoFileClip =
  audio :: "'aud option"
  duration_1f :: string

record ('img, 'aud) world =
  video_path :: string
  stale_frames :: "'img folder"
  vidcap :: "'img VideoCapture"
  open_clip :: "py_error + 'aud VideoFileClip"
  write_audiofile :: "'aud \<Rightarrow> py_error option"
  whisper_load_model :: "py_error option"
  whisper_transcribe :: "'aud \<Rightarrow> py_error + string"
  phi_from_pretrained :: "py_error option"
  phi_generate :: "string \<Rightarrow> string + string"
  now_strftime :: string

subsection \<open>Step 2: frame extraction\<close>

text \<open>The loop that clears the folder: \<open>os.remove\<close> on every listed entry.\<close>

fun clear_frames :: "'img folder \<Rightarrow> 'img folder" where
  "clear_frames [] = []"
| "clear_frames (f # fs) = clear_frames fs"

definition fallback_fps :: "real \<Rightarrow> real" where
  "fallback_fps fps = (if fps \<le> 0 then 30 else fps)"

definition frame_interval :: "real \<Rightarrow> int" where
  "frame_interval fps = py_int (fps * 2)"

definition frame_name :: "nat \<Rightarrow> string" where
  "frame_name saved_count = ''frame_'' @ format_0d 4 saved_count @ ''.jpg''"

definition frame_path :: "nat \<Rightarrow> string" where
  "frame_path saved_count = output_folder @ ''/'' @ frame_name saved_count"

text \<open>
  The sampling loop over the frame numbers of the range; its state is the event log, the counter
  \<open>saved_count\<close> and the folder. A frame that does not decode is passed over.
\<close>

fun sample_loop ::
  "'img VideoCapture \<Rightarrow> int list \<Rightarrow> event list \<times> nat \<times> 'img folder
     \<Rightarrow> event list \<times> nat \<times> 'img folder" where
  "sample_loop v [] st = st"
| "sample_loop v (frame_num # rest) (evs, saved_count, fol) =
     (case read_at v frame_num of
        None \<Rightarrow> sample_loop v rest (evs, saved_count, fol)
      | Some img \<Rightarrow>
          sample_loop v rest
            (evs @ [ImWrite (frame_path saved_count)], saved_count + 1,
             imwrite (frame_name saved_count) img fol))"

definition step2 :: "('img, 'aud) world \<Rightarrow> (nat \<times> 'img folder) exec" where
  "step2 w =
     (let fol = clear_frames (stale_frames w); v = vidcap w in
      if \<not> isOpened v then ([Step 2], Inl (RuntimeError ''Error opening video file''))
      else
        let fps = fallback_fps (CAP_PROP_FPS v);
            step = frame_interval fps;
            total_frames = py_int (CAP_PROP_FRAME_COUNT v)
        in case py_range 0 total_frames step of
             Inl e \<Rightarrow> ([Step 2], Inl e)
           | Inr frame_nums \<Rightarrow>
               (case sample_loop v frame_nums ([Step 2], 0, fol) of
                  (evs, saved_count, fol') \<Rightarrow> (evs, Inr (saved_count, fol'))))"

subsection \<open>Step 3: audio extraction and transcription\<close>

text \<open>
  \<open>video.audio.write_audiofile(...)\<close> on a clip whose \<open>audio\<close> is \<open>None\<close> raises
  \<open>AttributeError\<close>; the \<open>except\<close> clause prints and raises it again.
\<close>

definition none_has_no_write_audiofile :: py_error where
  "none_has_no_write_audiofile =
     AttributeError
       ([CHR 0x27] @ ''NoneType'' @ [CHR 0x27] @ '' object has no attribute '' @
        [CHR 0x27] @ ''write_audiofile'' @ [CHR 0x27])"

definition step3 :: "('img, 'aud) world \<Rightarrow> ('aud VideoFileClip \<times> string) exec" where
  "step3 w =
     (case open_clip w of
        Inl e \<Rightarrow> ([Step 3], Inl e)
      | Inr video \<Rightarrow>
          (case audio video of
             None \<Rightarrow> ([Step 3], Inl none_has_no_write_audiofile)
           | Some a \<Rightarrow>
               (case write_audiofile w a of
                  Some e \<Rightarrow> ([Step 3, WriteAudiofile], Inl e)
                | None \<Rightarrow>
                    (case whisper_load_model w of
                       Some e \<Rightarrow> ([Step 3, WriteAudiofile, LoadWhisper], Inl e)
                     | None \<Rightarrow>
                         (case whisper_transcribe w a of
                            Inl e \<Rightarrow> ([Step 3, WriteAudiofile, LoadWhisper, Transcribe], Inl e)
                          | Inr transcript \<Rightarrow>
                              ([Step 3, WriteAudiofile, LoadWhisper, Transcribe],
                               Inr (video, transcript)))))))"

subsection \<open>Step 4: the vision model and \<open>analyze_image_with_phi\<close>\<close>

definition step4 :: "('img, 'aud) world \<Rightarrow> unit exec" where
  "step4 w =
     (case phi_from_pretrained w of
        Some e \<Rightarrow> ([Step 4, LoadPhi], Inl e)
      | None \<Rightarrow> ([Step 4, LoadPhi], Inr ()))"

text \<open>
  \<open>phi_generate w image_path\<close> is the body of the \<open>try\<close> block: \<open>Inr\<close> the text it
  returns, \<open>Inl (str e)\<close> when an \<open>Exception\<close> \<open>e\<close> is raised anywhere inside it.
\<close>

definition analyze_image_with_phi :: "('img, 'aud) world \<Rightarrow> string \<Rightarrow> string" where
  "analyze_image_with_phi w image_path =
     (case phi_generate w image_path of
        Inr response \<Rightarrow> response
      | Inl reason \<Rightarrow> ''Description failed: '' @ reason)"

subsection \<open>Step 5: frame analysis\<close>

fun analysis_loop ::
  "('img, 'aud) world \<Rightarrow> string list \<Rightarrow> event list \<times> string list
     \<Rightarrow> event list \<times> string list" where
  "analysis_loop w [] st = st"
| "analysis_loop w (img_path # rest) (evs, frame_descriptions) =
     analysis_loop w rest
       (evs @ [AnalyzeImage img_path],
        frame_descriptions @ [analyze_image_with_phi w img_path])"

definition no_frames_found :: py_error where
  "no_frames_found = FileNotFoundError ''No frames found for analysis''"

definition step5 :: "('img, 'aud) world \<Rightarrow> 'img folder \<Rightarrow> string list exec" where
  "step5 w fol =
     (let frame_files = sort (glob_jpg fol) in
      if frame_files = [] then ([Step 5], Inl no_frames_found)
      else
        (case analysis_loop w frame_files ([Step 5], []) of
           (evs, frame_descriptions) \<Rightarrow> (evs, Inr frame_descriptions)))"

subsection \<open>Step 6: the report\<close>

text \<open>The pictograph that opens the report (U+1F3A5), as its four UTF-8 bytes.\<close>

definition movie_camera :: string where
  "movie_camera = [CHR 0xF0, CHR 0x9F, CHR 0x8E, CHR 0xA5]"

definition report_head ::
  "('img, 'aud) world \<Rightarrow> 'aud VideoFileClip \<Rightarrow> string list \<Rightarrow> string" where
  "report_head w video frame_descriptions =
     movie_camera @ '' VIDEO ANALYSIS REPORT\<newline>'' @
     ''Generated: '' @ now_strftime w @ ''\<newline>'' @
     ''Original file: '' @ video_path w @ ''\<newline>'' @
     ''Duration: '' @ duration_1f video @ '' seconds\<newline>'' @
     ''Frames analyzed: '' @ str_nat (length frame_descriptions) @ ''\<newline>'' @
     ''\<newline>'' @
     ''=== KEY OBSERVATIONS ===\<newline>''"

definition key_observations :: "string list \<Rightarrow> string" where
  "key_observations frame_descriptions =
     (if frame_descriptions \<noteq> [] then
        ''- First frame: '' @ slice_to 150 (hd frame_descriptions) @ ''...\<newline>'' @
        ''- Last frame: '' @ slice_to 150 (last frame_descriptions) @ ''...\<newline>\<newline>''
      else [])"

definition py_divmod :: "nat \<Rightarrow> nat \<Rightarrow> nat \<times> nat" where
  "py_divmod a b = (a div b, a mod b)"

text \<open>The body of the loop over \<open>enumerate(frame_descriptions)\<close>, in three parts.\<close>

definition timestamp_of :: "nat \<Rightarrow> nat" where
  "timestamp_of i = i * 2"

definition mm_ss :: "nat \<Rightarrow> string" where
  "mm_ss timestamp =
     (case py_divmod timestamp 60 of
        (mins, secs) \<Rightarrow> format_0d 2 mins @ '':'' @ format_0d 2 secs)"

definition frame_entry :: "nat \<Rightarrow> string \<Rightarrow> string" where
  "frame_entry i desc =
     ''\<newline>['' @ str_nat (i + 1) @ ''] @ '' @ mm_ss (timestamp_of i) @ ''\<newline>'' @
     desc @ ''\<newline>''"

fun detail_loop :: "nat \<Rightarrow> string list \<Rightarrow> string \<Rightarrow> string" where
  "detail_loop i [] report = report"
| "detail_loop i (desc # rest) report = detail_loop (i + 1) rest (report @ frame_entry i desc)"

definition build_report ::
  "('img, 'aud) world \<Rightarrow> 'aud VideoFileClip \<Rightarrow> string list \<Rightarrow> string \<Rightarrow> string" where
  "build_report w video frame_descriptions transcript =
     (let report = report_head w video frame_descriptions;
          report = report @ key_observations frame_descriptions;
          report = report @ ''=== DETAILED FRAME DESCRIPTIONS ===\<newline>'';
          report = detail_loop 0 frame_descriptions report;
          report = report @ ''\<newline>\<newline>=== AUDIO TRANSCRIPT ===\<newline>'';
          report = report @ transcript
      in report)"

definition step6 ::
  "('img, 'aud) world \<Rightarrow> 'aud VideoFileClip \<Rightarrow> string list \<Rightarrow> string \<Rightarrow> string exec" where
  "step6 w video frame_descriptions transcript =
     ([Step 6, WriteReport], Inr (build_report w video frame_descriptions transcript))"

subsection \<open>All cells in order\<close>

definition run_all :: "('img, 'aud) world \<Rightarrow> string exec" where
  "run_all w =
     bind_exec (step2 w) (\<lambda>(saved_count, fol).
     bind_exec (step3 w) (\<lambda>(video, transcript).
     bind_exec (step4 w) (\<lambda>_.
     bind_exec (step5 w fol) (\<lambda>frame_descriptions.
     step6 w video frame_descriptions transcript))))"

subsection \<open>Notions used to state the properties\<close>

text \<open>
  The step as the specification words it, \<open>round(frameRate \<times> interval)\<close>, to be compared
  with \<open>frame_interval\<close>, which is the step of the code.
\<close>

definition spec_frame_step :: "real \<Rightarrow> real \<Rightarrow> int" where
  "spec_frame_step frameRate interval = round (frameRate * interval)"

text \<open>
  The frame numbers the loop of Step 2 visits once the range exists, and the images that
  decode among them, in order.
\<close>

definition frame_numbers :: "'img VideoCapture \<Rightarrow> int list" where
  "frame_numbers v =
     range_up 0 (py_int (CAP_PROP_FRAME_COUNT v)) (frame_interval (fallback_fps (CAP_PROP_FPS v)))"

definition sampled :: "'img VideoCapture \<Rightarrow> int list \<Rightarrow> 'img list" where
  "sampled v frame_nums = List.map_filter (read_at v) frame_nums"

text \<open>The last \<open>w\<close> decimal digits of \<open>n\<close>, most significant first.\<close>

fun pad_digits :: "nat \<Rightarrow> nat \<Rightarrow> string" where
  "pad_digits 0 n = []"
| "pad_digits (Suc w) n = pad_digits w (n div 10) @ [digit_char (n mod 10)]"


text \<open>
  Concrete runs, to instantiate the theorems: a capture that opens and decodes every frame
  (frame \<open>k\<close> is the image \<open>k\<close>), and a world around it in which every stage succeeds,
  with the audio track and the captioner left open. A frame of an earlier run is still in
  the folder.
\<close>

definition example_capture :: "real \<Rightarrow> real \<Rightarrow> nat VideoCapture" where
  "example_capture fps n =
     \<lparr>isOpened = True, CAP_PROP_FPS = fps, CAP_PROP_FRAME_COUNT = n,
      read_at = (\<lambda>k. Some (nat k))\<rparr>"

definition example_world ::
  "nat VideoCapture \<Rightarrow> unit option \<Rightarrow> (string \<Rightarrow> string + string) \<Rightarrow> (nat, unit) world" where
  "example_world v a gen =
     \<lparr>video_path = ''clip.mp4'', stale_frames = [(''frame_0007.jpg'', 7)], vidcap = v,
      open_clip = Inr \<lparr>audio = a, duration_1f = ''4.8''\<rparr>,
      write_audiofile = (\<lambda>_. None), whisper_load_model = None,
      whisper_transcribe = (\<lambda>_. Inr ''hello world''), phi_from_pretrained = None,
      phi_generate = gen, now_strftime = ''2024-01-01 00:00:00''\<rparr>"

section \<open>Properties of the cells\<close>

subsection \<open>The frame step and the range\<close>

lemma clear_frames_Nil: "clear_frames fol = []"
  by (induction fol) simp_all

lemma frame_interval_small: "0 < fps \<Longrightarrow> fps < 1/2 \<Longrightarrow> frame_interval (fallback_fps fps) = 0"
  by (simp add: frame_interval_def fallback_fps_def py_int_def floor_eq_iff)

lemma frame_interval_nonneg: "0 \<le> frame_interval (fallback_fps fps)"
  by (simp add: frame_interval_def fallback_fps_def py_int_def)

lemma frame_interval_pos_iff: "0 < frame_interval (fallback_fps fps) \<longleftrightarrow> fps \<le> 0 \<or> 1/2 \<le> fps"
  by (simp add: frame_interval_def fallback_fps_def py_int_def)

lemma length_range_up:
  "0 < step \<Longrightarrow> int (length (range_up i stop step)) = max 0 (- ((i - stop) div step))"
proof (induction i stop step rule: range_up.induct)
  case (1 i stop step)
  show ?case
  proof (cases "i < stop")
    case True
    with 1 have IH: "int (length (range_up (i + step) stop step)) = max 0 (- ((i + step - stop) div step))"
      by simp
    have "i + step - stop = (i - stop) + step" by simp
    then have "(i + step - stop) div step = (i - stop) div step + 1"
      using 1(2) by (simp only: div_add_self2)
    moreover have "(i - stop) div step < 0" using True 1(2)
      by (simp add: div_neg_pos_less0)
    ultimately show ?thesis using True 1(2) IH
      by (subst range_up.simps) simp
  next
    case False
    then have "0 \<le> (i - stop) div step" using 1(2) by (simp add: pos_imp_zdiv_nonneg_iff)
    then show ?thesis using False
      by (subst range_up.simps) simp
  qed
qed

lemma length_range_up_ceiling:
  assumes "0 < step"
  shows "int (length (range_up 0 stop step)) = max 0 \<lceil>real_of_int stop / real_of_int step\<rceil>"
  using length_range_up[OF assms, of 0 stop] by (simp add: ceiling_divide_eq_div)

lemma ceiling_div_le_total:
  assumes "0 < (step::int)"
  shows "max 0 (- ((- n) div step)) \<le> max 0 n"
proof (cases "0 < n")
  case True
  then have "- n \<le> (- n) div step"
    using zdiv_mono2_neg[of "- n" 1 step] assms by simp
  then show ?thesis by simp
next
  case False
  then have "0 \<le> (- n) div step" using assms by (simp add: pos_imp_zdiv_nonneg_iff)
  then show ?thesis using False by simp
qed

subsection \<open>The sampling loop\<close>

lemma sampled_Nil [simp]: "sampled v [] = []"
  by (simp add: sampled_def map_filter_simps)

lemma sampled_Cons:
  "sampled v (k # ks) = (case read_at v k of None \<Rightarrow> sampled v ks | Some img \<Rightarrow> img # sampled v ks)"
  by (simp add: sampled_def map_filter_simps split: option.split)

lemma sampled_all_ok:
  "\<forall>k \<in> set ks. read_at v k \<noteq> None \<Longrightarrow> length (sampled v ks) = length ks"
  by (induction ks) (auto simp: sampled_Cons split: option.splits)

lemma length_sampled_le: "length (sampled v ks) \<le> length ks"
  by (induction ks) (auto simp: sampled_Cons split: option.splits)

lemma sample_loop_count:
  "sample_loop v ks (evs, s, fol) = (evs', s', fol') \<Longrightarrow>
     s' = s + length (sampled v ks) \<and>
     evs' = evs @ map (\<lambda>k. ImWrite (frame_path k)) [s..<s + length (sampled v ks)]"
proof (induction ks arbitrary: evs s fol)
  case Nil
  then show ?case by simp
next
  case (Cons k ks)
  show ?case
  proof (cases "read_at v k")
    case None
    with Cons.prems have "sample_loop v ks (evs, s, fol) = (evs', s', fol')"
      by simp
    from Cons.IH[OF this] None show ?thesis
      by (simp add: sampled_Cons)
  next
    case (Some img)
    with Cons.prems have
      "sample_loop v ks (evs @ [ImWrite (frame_path s)], s + 1, imwrite (frame_name s) img fol)
         = (evs', s', fol')"
      by simp
    from Cons.IH[OF this] Some show ?thesis
      by (simp add: sampled_Cons upt_conv_Cons del: upt_Suc)
  qed
qed

subsection \<open>The analysis loop and the report loop\<close>

lemma analysis_loop_eq:
  "analysis_loop w fs (evs, ds) =
     (evs @ map AnalyzeImage fs, ds @ map (analyze_image_with_phi w) fs)"
  by (induction fs arbitrary: evs ds) simp_all

lemma step5_nonempty:
  "sort (glob_jpg fol) \<noteq> [] \<Longrightarrow>
   step5 w fol = (Step 5 # map AnalyzeImage (sort (glob_jpg fol)),
                  Inr (map (analyze_image_with_phi w) (sort (glob_jpg fol))))"
  by (simp add: step5_def Let_def analysis_loop_eq)

lemma step5_empty:
  "sort (glob_jpg fol) = [] \<Longrightarrow> step5 w fol = ([Step 5], Inl no_frames_found)"
  by (simp add: step5_def)

lemma detail_loop_eq:
  "detail_loop i ds report =
     report @ concat (map (\<lambda>k. frame_entry (i + k) (ds ! k)) [0..<length ds])"
proof (induction ds arbitrary: i report)
  case Nil
  then show ?case by simp
next
  case (Cons d ds)
  have "map (\<lambda>k. frame_entry (i + k) ((d # ds) ! k)) [0..<length (d # ds)]
        = frame_entry i d # map (\<lambda>k. frame_entry (Suc i + k) (ds ! k)) [0..<length ds]"
  proof -
    have "[0..<length (d # ds)] = 0 # map Suc [0..<length ds]"
      by (simp add: upt_conv_Cons map_Suc_upt del: upt_Suc)
    then show ?thesis by (simp add: o_def del: upt_Suc)
  qed
  then show ?case using Cons.IH[of "i + 1" "report @ frame_entry i d"] by simp
qed

lemma digit_char_eval:
  "digit_char 0 = CHR ''0''" "digit_char 1 = CHR ''1''" "digit_char 2 = CHR ''2''"
  "digit_char 3 = CHR ''3''" "digit_char 4 = CHR ''4''" "digit_char 5 = CHR ''5''"
  "digit_char 6 = CHR ''6''" "digit_char 7 = CHR ''7''" "digit_char 8 = CHR ''8''"
  "digit_char 9 = CHR ''9''"
  "digit_char (Suc 0) = CHR ''1''" "digit_char (Suc (Suc 0)) = CHR ''2''"
  "digit_char (Suc (Suc (Suc 0))) = CHR ''3''"
  by (simp_all add: digit_char_def char_of_def bit_Suc_0_iff)

subsection \<open>Zero-padded numbers and the order of the frame files\<close>

lemma less_append_prefix: "(xs @ ys < xs @ zs) = (ys < (zs :: 'a :: linorder list))"
  by (induction xs) simp_all

lemma less_append_same_length:
  "length xs = length ys \<Longrightarrow> xs < ys \<Longrightarrow> xs @ us < ys @ (vs :: 'a :: linorder list)"
  by (induction xs ys rule: list_induct2) auto

lemma length_pad_digits [simp]: "length (pad_digits w n) = w"
  by (induction w arbitrary: n) simp_all

lemma pad_digits_zero: "pad_digits w 0 = replicate w (CHR ''0'')"
  by (induction w) (simp_all add: digit_char_eval replicate_append_same)

lemma digit_char_less: "a < 10 \<Longrightarrow> b < 10 \<Longrightarrow> digit_char a < digit_char b \<longleftrightarrow> a < b"
  by (simp add: less_char_def digit_char_def)

lemma length_str_nat: "n < 10 ^ w \<Longrightarrow> 0 < w \<Longrightarrow> length (str_nat n) \<le> w"
proof (induction w arbitrary: n)
  case 0
  then show ?case by simp
next
  case (Suc w)
  show ?case
  proof (cases "n < 10")
    case True
    then show ?thesis by (simp add: str_nat.simps)
  next
    case False
    then have w: "0 < w" using Suc.prems by (cases w) auto
    have "n div 10 < 10 ^ w" using Suc.prems by (simp add: less_mult_imp_div_less mult.commute)
    from Suc.IH[OF this w] False show ?thesis
      by (subst str_nat.simps) simp
  qed
qed

lemma format_0d_pad_digits: "n < 10 ^ w \<Longrightarrow> 0 < w \<Longrightarrow> format_0d w n = pad_digits w n"
proof (induction w arbitrary: n)
  case 0
  then show ?case by simp
next
  case (Suc w)
  show ?case
  proof (cases "n < 10")
    case True
    then show ?thesis
      by (simp add: format_0d_def str_nat.simps pad_digits_zero)
  next
    case False
    then have w: "0 < w" using Suc.prems by (cases w) auto
    have lt: "n div 10 < 10 ^ w" using Suc.prems by (simp add: less_mult_imp_div_less mult.commute)
    have len: "length (str_nat (n div 10)) \<le> w" by (rule length_str_nat[OF lt w])
    have s: "str_nat n = str_nat (n div 10) @ [digit_char (n mod 10)]"
      using False by (subst str_nat.simps) simp
    have "format_0d (Suc w) n = format_0d w (n div 10) @ [digit_char (n mod 10)]"
      using len by (simp add: format_0d_def s)
    then show ?thesis using Suc.IH[OF lt w] by simp
  qed
qed

lemma pad_digits_less:
  "n < m \<Longrightarrow> m < 10 ^ w \<Longrightarrow> pad_digits w n < pad_digits w m"
proof (induction w arbitrary: n m)
  case 0
  then show ?case by simp
next
  case (Suc w)
  have m: "m div 10 < 10 ^ w" using Suc.prems by (simp add: less_mult_imp_div_less mult.commute)
  have le: "n div 10 \<le> m div 10" using Suc.prems by (simp add: div_le_mono)
  show ?case
  proof (cases "n div 10 < m div 10")
    case True
    from Suc.IH[OF True m] show ?thesis
      by (simp add: less_append_same_length)
  next
    case False
    with le have eq: "n div 10 = m div 10" by simp
    then have "n mod 10 < m mod 10" using Suc.prems(1)
      by (metis div_mult_mod_eq nat_add_left_cancel_less)
    then show ?thesis
      by (simp add: eq less_append_prefix digit_char_less)
  qed
qed

lemma frame_name_less:
  assumes "i < j" and "j < 10000"
  shows "frame_name i < frame_name j"
proof -
  have "format_0d 4 i = pad_digits 4 i" "format_0d 4 j = pad_digits 4 j"
    using assms by (simp_all add: format_0d_pad_digits)
  moreover have "pad_digits 4 i < pad_digits 4 j"
    using assms by (simp add: pad_digits_less)
  ultimately show ?thesis
    by (simp add: frame_name_def less_append_prefix less_append_same_length)
qed

lemma frame_path_less: "i < j \<Longrightarrow> j < 10000 \<Longrightarrow> frame_path i < frame_path j"
  by (simp add: frame_path_def less_append_prefix frame_name_less)

lemma sorted_frame_paths: "n \<le> 10000 \<Longrightarrow> sorted_wrt (<) (map frame_path [0..<n])"
  by (simp add: sorted_wrt_iff_nth_less frame_path_less)

lemma sort_frame_paths: "n \<le> 10000 \<Longrightarrow> sort (map frame_path [0..<n]) = map frame_path [0..<n]"
  using sorted_frame_paths[of n] by (simp add: sorted_sort_id strict_sorted_imp_sorted)


lemma length_format_0d_4: "n < 10000 \<Longrightarrow> length (format_0d 4 n) = 4"
  by (simp add: format_0d_pad_digits)

lemma glob_match_frame_name: "glob_match_jpg (frame_name n)"
  by (simp add: glob_match_jpg_def frame_name_def endswith_def)

subsection \<open>The folder after Step 2\<close>

lemma imwrite_fresh: "name \<notin> fst ` set fol \<Longrightarrow> imwrite name img fol = fol @ [(name, img)]"
  by (induction fol) auto

lemma frame_name_fresh: "s < 10000 \<Longrightarrow> frame_name s \<notin> frame_name ` {0..<s}"
  using frame_name_less by fastforce

lemma sample_loop_folder:
  assumes "sample_loop v ks (evs, s, fol) = (evs', s', fol')"
    and "map fst fol = map frame_name [0..<s]"
    and "s + length (sampled v ks) \<le> 10000"
  shows "fol' = fol @ zip (map frame_name [s..<s']) (sampled v ks)"
  using assms
proof (induction ks arbitrary: evs s fol)
  case Nil
  then show ?case by simp
next
  case (Cons k ks)
  show ?case
  proof (cases "read_at v k")
    case None
    with Cons.prems have "sample_loop v ks (evs, s, fol) = (evs', s', fol')"
      "s + length (sampled v ks) \<le> 10000"
      by (simp_all add: sampled_Cons)
    from Cons.IH[OF this(1) Cons.prems(2) this(2)] None show ?thesis
      by (simp add: sampled_Cons)
  next
    case (Some img)
    let ?fol = "imwrite (frame_name s) img fol"
    from Some Cons.prems have L:
      "sample_loop v ks (evs @ [ImWrite (frame_path s)], s + 1, ?fol) = (evs', s', fol')"
      and B: "(s + 1) + length (sampled v ks) \<le> 10000"
      by (simp_all add: sampled_Cons)
    from B have "s < 10000" by simp
    then have "frame_name s \<notin> fst ` set fol"
      using frame_name_fresh[of s] Cons.prems(2)
      by (metis list.set_map set_upt)
    then have F: "?fol = fol @ [(frame_name s, img)]" by (rule imwrite_fresh)
    then have N: "map fst ?fol = map frame_name [0..<s + 1]"
      using Cons.prems(2) by simp
    from sample_loop_count[OF L] have S: "s' = s + 1 + length (sampled v ks)" by simp
    then have "s < s'" by simp
    then have U: "[s..<s'] = s # [s + 1..<s']" by (simp add: upt_conv_Cons del: upt_Suc)
    from Cons.IH[OF L N B] show ?thesis
      by (simp add: F U sampled_Cons Some del: upt_Suc)
  qed
qed

lemma step2_cases:
  "step2 w = ([Step 2], Inl (RuntimeError ''Error opening video file'')) \<and> \<not> isOpened (vidcap w)
   \<or> step2 w = ([Step 2], Inl (ValueError ''range() arg 3 must not be zero'')) \<and> isOpened (vidcap w)
        \<and> frame_interval (fallback_fps (CAP_PROP_FPS (vidcap w))) = 0
   \<or> (\<exists>evs saved fol. step2 w = (evs, Inr (saved, fol)) \<and> isOpened (vidcap w)
        \<and> 0 < frame_interval (fallback_fps (CAP_PROP_FPS (vidcap w)))
        \<and> sample_loop (vidcap w) (frame_numbers (vidcap w)) ([Step 2], 0, []) = (evs, saved, fol))"
proof -
  have nn: "0 \<le> frame_interval (fallback_fps (CAP_PROP_FPS (vidcap w)))"
    by (rule frame_interval_nonneg)
  obtain evs saved fol where
    "sample_loop (vidcap w) (frame_numbers (vidcap w)) ([Step 2], 0, []) = (evs, saved, fol)"
    by (metis prod_cases3)
  then show ?thesis using nn
    by (auto simp: step2_def Let_def py_range_def clear_frames_Nil frame_numbers_def)
qed

lemma step2_Inr:
  assumes "step2 w = (evs, Inr (saved, fol))"
  shows "isOpened (vidcap w)"
    and "0 < frame_interval (fallback_fps (CAP_PROP_FPS (vidcap w)))"
    and "sample_loop (vidcap w) (frame_numbers (vidcap w)) ([Step 2], 0, []) = (evs, saved, fol)"
  using step2_cases[of w] assms by auto

lemma step2_events: "set (fst (step2 w)) \<subseteq> insert (Step 2) (range ImWrite)"
proof -
  { fix evs saved fol
    assume "sample_loop (vidcap w) (frame_numbers (vidcap w)) ([Step 2], 0, []) = (evs, saved, fol)"
    from sample_loop_count[OF this] have "set evs \<subseteq> insert (Step 2) (range ImWrite)" by auto }
  then show ?thesis using step2_cases[of w] by auto
qed

lemma step2_folder:
  assumes "step2 w = (evs, Inr (saved, fol))" and "saved \<le> 10000"
  shows "fol = zip (map frame_name [0..<saved]) (sampled (vidcap w) (frame_numbers (vidcap w)))"
    and "saved = length (sampled (vidcap w) (frame_numbers (vidcap w)))"
    and "evs = Step 2 # map (\<lambda>k. ImWrite (frame_path k)) [0..<saved]"
proof -
  note L = step2_Inr(3)[OF assms(1)]
  from sample_loop_count[OF L]
  show n: "saved = length (sampled (vidcap w) (frame_numbers (vidcap w)))"
    and "evs = Step 2 # map (\<lambda>k. ImWrite (frame_path k)) [0..<saved]" by simp_all
  from sample_loop_folder[OF L] n assms(2)
  show "fol = zip (map frame_name [0..<saved]) (sampled (vidcap w) (frame_numbers (vidcap w)))"
    by simp
qed

lemma step2_names:
  assumes "step2 w = (evs, Inr (saved, fol))" and "saved \<le> 10000"
  shows "map fst fol = map frame_name [0..<saved]"
  using step2_folder(1,2)[OF assms] by (metis length_map length_upt map_fst_zip diff_zero)

lemma glob_frame_names: "map fst fol = map frame_name [0..<n] \<Longrightarrow> glob_jpg fol = map frame_path [0..<n]"
  by (simp add: glob_jpg_def glob_match_frame_name frame_path_def)

lemma sorted_glob_any_order:
  assumes "distinct listing" and "distinct (glob_jpg fol)" and "set listing = set (glob_jpg fol)"
  shows "sort listing = sort (glob_jpg fol)"
  using assms by (intro sorted_distinct_set_unique) simp_all

lemma step3_events: "set (fst (step3 w)) \<subseteq> {Step 3, WriteAudiofile, LoadWhisper, Transcribe}"
  by (auto simp: step3_def split: sum.splits option.splits)

lemma step4_events: "fst (step4 w) = [Step 4, LoadPhi]"
  by (simp add: step4_def split: option.splits)

subsection \<open>Evaluating the concrete runs\<close>

lemma example_world_sel:
  "video_path (example_world v a g) = ''clip.mp4''"
  "stale_frames (example_world v a g) = [(''frame_0007.jpg'', 7)]"
  "vidcap (example_world v a g) = v"
  "open_clip (example_world v a g) = Inr \<lparr>audio = a, duration_1f = ''4.8''\<rparr>"
  "write_audiofile (example_world v a g) = (\<lambda>_. None)"
  "whisper_load_model (example_world v a g) = None"
  "whisper_transcribe (example_world v a g) = (\<lambda>_. Inr ''hello world'')"
  "phi_from_pretrained (example_world v a g) = None"
  "phi_generate (example_world v a g) = g"
  "now_strftime (example_world v a g) = ''2024-01-01 00:00:00''"
  by (simp_all add: example_world_def)

lemma format_0d_4_digit: "n < 10 \<Longrightarrow> format_0d 4 n = ''000'' @ [digit_char n]"
  by (simp add: format_0d_def str_nat.simps numeral_eq_Suc)

lemma format_0d_2_digit: "n < 10 \<Longrightarrow> format_0d 2 n = ''0'' @ [digit_char n]"
  by (simp add: format_0d_def str_nat.simps numeral_eq_Suc)

lemmas eval_defs = step2_def Let_def py_range_def range_up.simps fallback_fps_def frame_interval_def
  py_int_def frame_path_def frame_name_def format_0d_4_digit format_0d_2_digit str_nat.simps digit_char_eval
  output_folder_def example_capture_def example_world_sel

lemma example_glob:
  "sort (glob_jpg [(''frame_0000.jpg'', 0::nat), (''frame_0001.jpg'', 50), (''frame_0002.jpg'', 100)])
   = [''frames/frame_0000.jpg'', ''frames/frame_0001.jpg'', ''frames/frame_0002.jpg'']"
  by (simp add: glob_jpg_def glob_match_jpg_def endswith_def output_folder_def)

lemma example_step2:
  "step2 (example_world (example_capture 25 120) a gen) =
     ([Step 2, ImWrite ''frames/frame_0000.jpg'', ImWrite ''frames/frame_0001.jpg'',
       ImWrite ''frames/frame_0002.jpg''],
      Inr (3, [(''frame_0000.jpg'', 0), (''frame_0001.jpg'', 50), (''frame_0002.jpg'', 100)]))"
  by (simp add: eval_defs)

lemma example_step3:
  "step3 (example_world v (Some ()) gen) =
      ([Step 3, WriteAudiofile, LoadWhisper, Transcribe],
       Inr (\<lparr>audio = Some (), duration_1f = ''4.8''\<rparr>, ''hello world''))"
  by (simp add: step3_def example_world_sel)

subsection \<open>The run of all cells\<close>

lemma run_all_after_step2:
  assumes "step2 w = (evs, Inr (saved, fol))"
  shows "run_all w =
     (case bind_exec (step3 w) (\<lambda>(video, transcript).
             bind_exec (step4 w) (\<lambda>_.
             bind_exec (step5 w fol) (\<lambda>frame_descriptions.
             step6 w video frame_descriptions transcript))) of
        (l, r) \<Rightarrow> (evs @ l, r))"
  by (simp add: run_all_def bind_exec_def assms split: prod.splits sum.splits)

lemma distinct_frame_paths: "n \<le> 10000 \<Longrightarrow> distinct (map frame_path [0..<n])"
  using sorted_frame_paths[of n] strict_sorted_iff by blast

subsection \<open>Frame names of any width\<close>

lemma str_nat_nonempty: "str_nat n \<noteq> []"
  by (subst str_nat.simps) simp

lemma length_str_nat_ge: "10 ^ w \<le> n \<Longrightarrow> w < length (str_nat n)"
proof (induction w arbitrary: n)
  case 0
  then show ?case using str_nat_nonempty[of n] by (cases "str_nat n") simp_all
next
  case (Suc w)
  then have ge: "10 \<le> n"
    by (metis One_nat_def le_trans nat_one_le_power power_Suc mult.right_neutral mult_le_mono2 zero_less_numeral Suc_leI)
  have "10 ^ w \<le> n div 10" using Suc.prems by (simp add: less_eq_div_iff_mult_less_eq mult.commute)
  from Suc.IH[OF this] ge show ?case
    by (subst str_nat.simps) simp
qed

lemma digit_char_inj: "a < 10 \<Longrightarrow> b < 10 \<Longrightarrow> digit_char a = digit_char b \<Longrightarrow> a = b"
  by (metis digit_char_less less_irrefl linorder_neqE_nat)

lemma str_nat_inj: "str_nat n = str_nat m \<Longrightarrow> n = m"
proof (induction n arbitrary: m rule: str_nat.induct)
  case (1 n)
  show ?case
  proof (cases "n < 10")
    case True
    then have n: "str_nat n = [digit_char n]" by (subst str_nat.simps) simp
    show ?thesis
    proof (cases "m < 10")
      case True
      then have "str_nat m = [digit_char m]" by (subst str_nat.simps) simp
      with n 1(2) \<open>n < 10\<close> True show ?thesis by (simp add: digit_char_inj)
    next
      case False
      then have "str_nat m = str_nat (m div 10) @ [digit_char (m mod 10)]"
        by (subst str_nat.simps) simp
      with n 1(2) show ?thesis using str_nat_nonempty[of "m div 10"] by simp
    qed
  next
    case False
    then have n: "str_nat n = str_nat (n div 10) @ [digit_char (n mod 10)]"
      by (subst str_nat.simps) simp
    show ?thesis
    proof (cases "m < 10")
      case True
      then have "str_nat m = [digit_char m]" by (subst str_nat.simps) simp
      with n 1(2) show ?thesis using str_nat_nonempty[of "n div 10"] by simp
    next
      case m: False
      then have "str_nat m = str_nat (m div 10) @ [digit_char (m mod 10)]"
        by (subst str_nat.simps) simp
      with n 1(2) have e: "str_nat (n div 10) = str_nat (m div 10)"
        and d: "digit_char (n mod 10) = digit_char (m mod 10)" by simp_all
      from 1(1)[OF False e] have "n div 10 = m div 10" .
      moreover from d have "n mod 10 = m mod 10" by (simp add: digit_char_inj)
      ultimately show ?thesis by (metis div_mult_mod_eq)
    qed
  qed
qed

lemma format_0d_big: "10 ^ w \<le> n \<Longrightarrow> format_0d w n = str_nat n"
  using length_str_nat_ge[of w n] by (simp add: format_0d_def)

lemma format_0d_inj:
  assumes "0 < w" and "format_0d w n = format_0d w m"
  shows "n = m"
proof -
  have small: "a < 10 ^ w \<Longrightarrow> length (format_0d w a) = w" for a
    using assms(1) by (simp add: format_0d_pad_digits)
  have big: "10 ^ w \<le> a \<Longrightarrow> w < length (format_0d w a)" for a
    by (simp add: format_0d_big length_str_nat_ge)
  consider "n < 10 ^ w" "m < 10 ^ w" | "10 ^ w \<le> n" "10 ^ w \<le> m"
    | "n < 10 ^ w" "10 ^ w \<le> m" | "10 ^ w \<le> n" "m < 10 ^ w"
    by linarith
  then show ?thesis
  proof cases
    case 1
    then have e: "pad_digits w n = pad_digits w m"
      using assms by (simp add: format_0d_pad_digits)
    show ?thesis
    proof (rule ccontr)
      assume "n \<noteq> m"
      then consider "n < m" | "m < n" by linarith
      then show False
        using pad_digits_less[of n m w] pad_digits_less[of m n w] 1 e by cases auto
    qed
  next
    case 2
    then show ?thesis using assms(2) by (simp add: format_0d_big str_nat_inj)
  next
    case 3
    then show ?thesis using small[of n] big[of m] assms(2) by simp
  next
    case 4
    then show ?thesis using small[of m] big[of n] assms(2) by simp
  qed
qed

lemma frame_name_inj: "frame_name i = frame_name j \<Longrightarrow> i = j"
  using format_0d_inj[of 4 i j] by (simp add: frame_name_def)

lemma frame_name_fresh_all: "frame_name s \<notin> frame_name ` {0..<s}"
  using frame_name_inj by fastforce

lemma sample_loop_folder_all:
  assumes "sample_loop v ks (evs, s, fol) = (evs', s', fol')"
    and "map fst fol = map frame_name [0..<s]"
  shows "fol' = fol @ zip (map frame_name [s..<s']) (sampled v ks)"
  using assms
proof (induction ks arbitrary: evs s fol)
  case Nil
  then show ?case by simp
next
  case (Cons k ks)
  show ?case
  proof (cases "read_at v k")
    case None
    with Cons.prems have "sample_loop v ks (evs, s, fol) = (evs', s', fol')"
      by simp
    from Cons.IH[OF this Cons.prems(2)] None show ?thesis
      by (simp add: sampled_Cons)
  next
    case (Some img)
    let ?fol = "imwrite (frame_name s) img fol"
    from Some Cons.prems have L:
      "sample_loop v ks (evs @ [ImWrite (frame_path s)], s + 1, ?fol) = (evs', s', fol')"
      by simp
    have "frame_name s \<notin> fst ` set fol"
      using frame_name_fresh_all[of s] Cons.prems(2)
      by (metis list.set_map set_upt)
    then have F: "?fol = fol @ [(frame_name s, img)]" by (rule imwrite_fresh)
    then have N: "map fst ?fol = map frame_name [0..<s + 1]"
      using Cons.prems(2) by simp
    from sample_loop_count[OF L] have S: "s' = s + 1 + length (sampled v ks)" by simp
    then have "s < s'" by simp
    then have U: "[s..<s'] = s # [s + 1..<s']" by (simp add: upt_conv_Cons del: upt_Suc)
    from Cons.IH[OF L N] show ?thesis
      by (simp add: F U sampled_Cons Some del: upt_Suc)
  qed
qed

lemma step2_folder_all:
  assumes "step2 w = (evs, Inr (saved, fol))"
  shows "fol = zip (map frame_name [0..<saved]) (sampled (vidcap w) (frame_numbers (vidcap w)))"
    and "saved = length (sampled (vidcap w) (frame_numbers (vidcap w)))"
    and "evs = Step 2 # map (\<lambda>k. ImWrite (frame_path k)) [0..<saved]"
    and "map fst fol = map frame_name [0..<saved]"
    and "length fol = saved"
proof -
  note L = step2_Inr(3)[OF assms]
  from sample_loop_count[OF L]
  show n: "saved = length (sampled (vidcap w) (frame_numbers (vidcap w)))"
    and "evs = Step 2 # map (\<lambda>k. ImWrite (frame_path k)) [0..<saved]" by simp_all
  from sample_loop_folder_all[OF L]
  show f: "fol = zip (map frame_name [0..<saved]) (sampled (vidcap w) (frame_numbers (vidcap w)))"
    by simp
  from f n show "map fst fol = map frame_name [0..<saved]"
    by (metis length_map length_upt map_fst_zip diff_zero)
  then show "length fol = saved" by (metis length_map length_upt diff_zero)
qed

subsection \<open>Step 2 when every visited frame decodes\<close>

lemma range_up_nth:
  "j < length (range_up i stop step) \<Longrightarrow> range_up i stop step ! j = i + int j * step"
proof (induction i stop step arbitrary: j rule: range_up.induct)
  case (1 i stop step)
  show ?case
  proof (cases "0 < step \<and> i < stop")
    case True
    then have r: "range_up i stop step = i # range_up (i + step) stop step"
      by (subst range_up.simps) simp
    show ?thesis
    proof (cases j)
      case 0
      then show ?thesis by (simp add: r)
    next
      case (Suc j')
      with 1(2) r have "j' < length (range_up (i + step) stop step)" by simp
      from 1(1)[OF True this] show ?thesis by (simp add: r Suc algebra_simps)
    qed
  next
    case False
    then have "range_up i stop step = []" by (subst range_up.simps) simp
    with 1(2) show ?thesis by simp
  qed
qed

lemma sampled_all_ok_nth:
  "\<forall>k \<in> set ks. read_at v k \<noteq> None \<Longrightarrow> j < length ks \<Longrightarrow>
     read_at v (ks ! j) = Some (sampled v ks ! j)"
proof (induction ks arbitrary: j)
  case Nil
  then show ?case by simp
next
  case (Cons k ks)
  then obtain img where k: "read_at v k = Some img" by auto
  show ?case
  proof (cases j)
    case 0
    then show ?thesis by (simp add: sampled_Cons k)
  next
    case (Suc j')
    then show ?thesis using Cons by (simp add: sampled_Cons k)
  qed
qed

lemma step2_all_decoded:
  assumes "isOpened (vidcap w)"
    and "\<forall>k \<in> set (frame_numbers (vidcap w)). read_at (vidcap w) k \<noteq> None"
    and "1 \<le> frame_interval (fallback_fps (CAP_PROP_FPS (vidcap w)))"
  shows "\<exists>evs saved fol.
     step2 w = (evs, Inr (saved, fol)) \<and>
     saved = length (frame_numbers (vidcap w)) \<and>
     int saved =
       max 0 (- ((- py_int (CAP_PROP_FRAME_COUNT (vidcap w))) div
                  frame_interval (fallback_fps (CAP_PROP_FPS (vidcap w)))))"
proof -
  let ?n = "py_int (CAP_PROP_FRAME_COUNT (vidcap w))"
  let ?step = "frame_interval (fallback_fps (CAP_PROP_FPS (vidcap w)))"
  have pos: "0 < ?step" using assms(3) by simp
  from step2_cases[of w] assms(1) pos obtain evs saved fol where
    S: "step2 w = (evs, Inr (saved, fol))"
    by auto
  have "saved = length (frame_numbers (vidcap w))"
    using step2_folder_all(2)[OF S] assms(2) by (simp add: sampled_all_ok)
  moreover have "int (length (frame_numbers (vidcap w))) = max 0 (- ((- ?n) div ?step))"
    using length_range_up[OF pos, of 0 ?n] by (simp add: frame_numbers_def)
  ultimately show ?thesis using S by auto
qed

subsection \<open>The sorted listing of 10001 frames\<close>
















subsection \<open>The tags of the report\<close>

lemma pad_digits_2:
  "pad_digits 2 n = [digit_char (n div 10 mod 10), digit_char (n mod 10)]"
proof -
  have "(2::nat) = Suc (Suc 0)" by simp
  then show ?thesis by (simp only: pad_digits.simps append_Nil append_Cons)
qed

lemma mm_ss_digits:
  assumes "t < 6000"
  shows "mm_ss t =
     [digit_char (t div 60 div 10), digit_char (t div 60 mod 10), CHR '':'',
      digit_char (t mod 60 div 10), digit_char (t mod 60 mod 10)]"
proof -
  have m: "t div 60 < 10 ^ 2" using assms by simp
  have s: "t mod 60 < 10 ^ 2"
    by (rule less_trans[of _ 60]) simp_all
  have m': "t div 60 div 10 < 10" using assms by simp
  have s': "t mod 60 div 10 < 10"
    using s by (simp add: less_mult_imp_div_less)
  show ?thesis
    using m' s' by (simp add: mm_ss_def py_divmod_def format_0d_pad_digits[OF m]
          format_0d_pad_digits[OF s] pad_digits_2)
qed

lemma mm_ss_less:
  assumes "t < t'" and "t' < 6000"
  shows "mm_ss t < mm_ss t'"
proof -
  have m: "t div 60 < 10 ^ 2" "t' div 60 < 10 ^ 2" using assms by simp_all
  have s: "t mod 60 < 10 ^ 2" "t' mod 60 < 10 ^ 2"
    by (rule less_trans[of _ 60]; simp)+
  have e: "mm_ss t = pad_digits 2 (t div 60) @ '':'' @ pad_digits 2 (t mod 60)"
    "mm_ss t' = pad_digits 2 (t' div 60) @ '':'' @ pad_digits 2 (t' mod 60)"
    by (simp_all add: mm_ss_def py_divmod_def format_0d_pad_digits[OF m(1)]
          format_0d_pad_digits[OF m(2)] format_0d_pad_digits[OF s(1)] format_0d_pad_digits[OF s(2)])
  have le: "t div 60 \<le> t' div 60" using assms(1) by (simp add: div_le_mono)
  show ?thesis
  proof (cases "t div 60 < t' div 60")
    case True
    then have "pad_digits 2 (t div 60) < pad_digits 2 (t' div 60)"
      using m(2) by (rule pad_digits_less)
    then show ?thesis unfolding e by (simp add: less_append_same_length)
  next
    case False
    with le have eq: "t div 60 = t' div 60" by simp
    then have "t mod 60 < t' mod 60" using assms(1)
      by (metis div_mult_mod_eq nat_add_left_cancel_less)
    then have "pad_digits 2 (t mod 60) < pad_digits 2 (t' mod 60)"
      using s(2) by (rule pad_digits_less)
    then show ?thesis unfolding e eq by (simp add: less_append_prefix)
  qed
qed

section \<open>The claims\<close>

text \<open>
  C1, as the specification words it: the step is \<open>round(frameRate \<times> interval)\<close>. The
  code truncates: at 29.97 frames per second the step of the code is \<open>int(59.94) = 59\<close>,
  the rounded product is 60.
\<close>

theorem frame_step_round_counterexample:
  "frame_interval (fallback_fps 29.97) \<noteq> spec_frame_step (fallback_fps 29.97) 2"
  by (simp add: frame_interval_def fallback_fps_def spec_frame_step_def py_int_def round_def)

text \<open>
  C1, amended: the step is \<open>int(fps * 2)\<close>, the product of the rate and the fixed interval
  of two seconds cut to an integer (its floor, the rate in use being positive), where the
  rate in use is 30 whenever the decoded rate is at most 0; with the fallback in effect the
  step is 60, which is also \<open>round(30 \<times> 2)\<close>.
\<close>

theorem frame_step_truncates:
  "frame_interval (fallback_fps fps) = (if fps \<le> 0 then 60 else \<lfloor>fps * 2\<rfloor>) \<and>
   (fps \<le> 0 \<longrightarrow> frame_interval (fallback_fps fps) = spec_frame_step 30 2)"
  by (simp add: frame_interval_def fallback_fps_def spec_frame_step_def py_int_def round_def)

theorem frame_step_truncates_witness:
  "(- 1 :: real) \<le> 0 \<and> frame_interval (fallback_fps (- 1)) = 60 \<and>
   frame_interval (fallback_fps (- 1)) = spec_frame_step 30 2 \<and>
   frame_interval (fallback_fps 29.97) = 59"
  using frame_step_truncates[of "- 1"] frame_step_truncates[of "29.97"] by simp

text \<open>
  C2, as it is stated, for every capture whose decodes all succeed: at 0.25 frames per
  second the capture opens and no decode fails, the step is 0, and Step 2 raises on the
  range instead of leaving a sequence of frames.
\<close>

theorem sampled_frame_count_counterexample:
  "CAP_PROP_FPS (vidcap (example_world (example_capture 0.25 120) (Some ()) Inr)) = 0.25 \<and>
   isOpened (vidcap (example_world (example_capture 0.25 120) (Some ()) Inr)) \<and>
   read_at (vidcap (example_world (example_capture 0.25 120) (Some ()) Inr)) 0 = Some 0 \<and>
   frame_numbers (vidcap (example_world (example_capture 0.25 120) (Some ()) Inr)) = [] \<and>
   step2 (example_world (example_capture 0.25 120) (Some ()) Inr) =
     ([Step 2], Inl (ValueError ''range() arg 3 must not be zero''))"
  by (simp add: eval_defs frame_numbers_def)

text \<open>
  C2, amended: for a capture that opened, whose step is at least 1 and whose frames all
  decode at the frame numbers the loop visits, Step 2 ends normally; the folder then holds
  exactly the frames it wrote, the entry of index \<open>j\<close> being the decoded frame number
  \<open>j * step\<close> under the name of \<open>j\<close>; their number is \<open>ceil(total_frames / step)\<close>, or 0
  when that is negative, and it is at most the frame count of the source.
\<close>

theorem sampled_frame_count:
  assumes "isOpened (vidcap w)"
    and "\<forall>k \<in> set (frame_numbers (vidcap w)). read_at (vidcap w) k \<noteq> None"
    and "1 \<le> frame_interval (fallback_fps (CAP_PROP_FPS (vidcap w)))"
  shows "\<exists>evs saved_count fol.
     step2 w = (evs, Inr (saved_count, fol)) \<and>
     evs = Step 2 # map (\<lambda>k. ImWrite (frame_path k)) [0..<saved_count] \<and>
     length fol = saved_count \<and>
     (\<forall>j < saved_count.
        fst (fol ! j) = frame_name j \<and>
        read_at (vidcap w)
          (int j * frame_interval (fallback_fps (CAP_PROP_FPS (vidcap w)))) = Some (snd (fol ! j))) \<and>
     int saved_count =
       max 0 \<lceil>real_of_int (py_int (CAP_PROP_FRAME_COUNT (vidcap w))) /
               real_of_int (frame_interval (fallback_fps (CAP_PROP_FPS (vidcap w))))\<rceil> \<and>
     int saved_count \<le> max 0 (py_int (CAP_PROP_FRAME_COUNT (vidcap w)))"
proof -
  let ?v = "vidcap w"
  let ?n = "py_int (CAP_PROP_FRAME_COUNT ?v)"
  let ?step = "frame_interval (fallback_fps (CAP_PROP_FPS ?v))"
  let ?ks = "frame_numbers ?v"
  have pos: "0 < ?step" using assms(3) by simp
  from step2_all_decoded[OF assms] obtain evs saved fol where
    S: "step2 w = (evs, Inr (saved, fol))"
    and N: "saved = length ?ks"
    and C0: "int saved = max 0 (- ((- ?n) div ?step))"
    by blast
  note F = step2_folder_all[OF S]
  have len: "length (sampled ?v ?ks) = saved" using F(2) by simp
  have C: "int saved = max 0 \<lceil>real_of_int ?n / real_of_int ?step\<rceil>"
    using C0 by (simp add: ceiling_divide_eq_div)
  have B: "int saved \<le> max 0 ?n"
    using C0 ceiling_div_le_total[OF pos, of ?n] by simp
  have E: "\<forall>j < saved.
        fst (fol ! j) = frame_name j \<and> read_at ?v (int j * ?step) = Some (snd (fol ! j))"
  proof (intro allI impI)
    fix j assume j: "j < saved"
    have "fol ! j = (frame_name j, sampled ?v ?ks ! j)"
      using j len by (subst F(1)) simp
    moreover have "read_at ?v (?ks ! j) = Some (sampled ?v ?ks ! j)"
      using sampled_all_ok_nth[OF assms(2)] j N by simp
    moreover have "?ks ! j = int j * ?step"
      using range_up_nth[of j 0 ?n ?step] j N by (simp add: frame_numbers_def)
    ultimately show "fst (fol ! j) = frame_name j \<and> read_at ?v (int j * ?step) = Some (snd (fol ! j))"
      by simp
  qed
  from S F(3) F(5) E C B show ?thesis by blast
qed

theorem sampled_frame_count_witness:
  "isOpened (vidcap (example_world (example_capture 25 120) None Inr)) \<and>
   1 \<le> frame_interval (fallback_fps (CAP_PROP_FPS (vidcap (example_world (example_capture 25 120) None Inr)))) \<and>
   (\<exists>evs fol. step2 (example_world (example_capture 25 120) None Inr) = (evs, Inr (3, fol)) \<and>
      length fol = 3 \<and> fol ! 2 = (frame_name 2, 100))"
proof -
  let ?w = "example_world (example_capture 25 120) None Inr"
  have o: "isOpened (vidcap ?w)" by (simp add: example_world_sel example_capture_def)
  have d: "\<forall>k \<in> set (frame_numbers (vidcap ?w)). read_at (vidcap ?w) k \<noteq> None"
    by (simp add: example_world_sel example_capture_def)
  have st: "frame_interval (fallback_fps (CAP_PROP_FPS (vidcap ?w))) = 50"
    by (simp add: example_world_sel example_capture_def frame_interval_def fallback_fps_def py_int_def)
  then have s: "1 \<le> frame_interval (fallback_fps (CAP_PROP_FPS (vidcap ?w)))" by simp
  from sampled_frame_count[OF o d s] obtain evs n fol where
    S: "step2 ?w = (evs, Inr (n, fol))" and L: "length fol = n"
    and E: "\<forall>j < n. fst (fol ! j) = frame_name j \<and>
          read_at (vidcap ?w) (int j * frame_interval (fallback_fps (CAP_PROP_FPS (vidcap ?w))))
            = Some (snd (fol ! j))"
    and C: "int n = max 0 \<lceil>real_of_int (py_int (CAP_PROP_FRAME_COUNT (vidcap ?w))) /
               real_of_int (frame_interval (fallback_fps (CAP_PROP_FPS (vidcap ?w))))\<rceil>"
    by blast
  from C have n: "n = 3"
    by (simp add: example_world_sel example_capture_def py_int_def frame_interval_def
          fallback_fps_def)
  have "(2::nat) < n" using n by simp
  from E[THEN spec, THEN mp, OF this] have "fst (fol ! 2) = frame_name 2 \<and>
      read_at (vidcap ?w) (int 2 * frame_interval (fallback_fps (CAP_PROP_FPS (vidcap ?w))))
            = Some (snd (fol ! 2))" .
  then have "fol ! 2 = (frame_name 2, 100)"
    by (simp add: example_world_sel example_capture_def prod_eq_iff py_int_def frame_interval_def
          fallback_fps_def)
  with S L n o s show ?thesis by auto
qed

text \<open>
  C3: when the captioning of the frame at index \<open>i\<close> raises with reason \<open>reason\<close>, Step 5
  still ends normally with one description per frame file, and the description at index
  \<open>i\<close> is \<open>Description failed: \<close> followed by the reason. The run of three frames whose
  second captioning raises follows as an instance.
\<close>

theorem caption_failure_sentinel:
  assumes "sort (glob_jpg fol) = frame_files"
    and "i < length frame_files"
    and "phi_generate w (frame_files ! i) = Inl reason"
  shows "\<exists>evs frame_descriptions.
     step5 w fol = (evs, Inr frame_descriptions) \<and>
     length frame_descriptions = length frame_files \<and>
     frame_descriptions ! i = ''Description failed: '' @ reason"
proof -
  from assms(1,2) have ne: "sort (glob_jpg fol) \<noteq> []" by auto
  have "analyze_image_with_phi w (frame_files ! i) = ''Description failed: '' @ reason"
    using assms(3) by (simp add: analyze_image_with_phi_def)
  then show ?thesis
    using step5_nonempty[OF ne, of w] assms(1,2) by simp
qed

theorem caption_failure_sentinel_witness:
  "sort (glob_jpg [(''frame_0000.jpg'', 0::nat), (''frame_0001.jpg'', 50), (''frame_0002.jpg'', 100)])
     = [''frames/frame_0000.jpg'', ''frames/frame_0001.jpg'', ''frames/frame_0002.jpg''] \<and>
   (\<exists>evs frame_descriptions.
      step5 (example_world (example_capture 25 120) (Some ())
               (\<lambda>p. if p = ''frames/frame_0001.jpg'' then Inl ''out of memory'' else Inr ''a street''))
            [(''frame_0000.jpg'', 0), (''frame_0001.jpg'', 50), (''frame_0002.jpg'', 100)]
        = (evs, Inr frame_descriptions) \<and>
      length frame_descriptions = 3 \<and>
      frame_descriptions ! 1 = ''Description failed: out of memory'') \<and>
   (\<exists>report.
      snd (run_all (example_world (example_capture 25 120) (Some ())
               (\<lambda>p. if p = ''frames/frame_0001.jpg'' then Inl ''out of memory'' else Inr ''a street'')))
        = Inr report)"
proof -
  let ?gen = "\<lambda>p. if p = ''frames/frame_0001.jpg'' then Inl ''out of memory'' else Inr ''a street''"
  let ?w = "example_world (example_capture 25 120) (Some ()) ?gen"
  let ?fol = "[(''frame_0000.jpg'', 0::nat), (''frame_0001.jpg'', 50), (''frame_0002.jpg'', 100)]"
  have one: "1 < length [''frames/frame_0000.jpg'', ''frames/frame_0001.jpg'', ''frames/frame_0002.jpg'']"
    by simp
  have gen: "phi_generate ?w
       ([''frames/frame_0000.jpg'', ''frames/frame_0001.jpg'', ''frames/frame_0002.jpg''] ! 1)
      = Inl ''out of memory''"
    by (simp add: example_world_sel)
  from caption_failure_sentinel[OF example_glob one gen]
  obtain evs ds where s5: "step5 ?w ?fol = (evs, Inr ds)" and len: "length ds = 3"
    and d1: "ds ! 1 = ''Description failed: out of memory''"
    by auto
  have "snd (run_all ?w) =
      Inr (build_report ?w \<lparr>audio = Some (), duration_1f = ''4.8''\<rparr> ds ''hello world'')"
    by (simp add: run_all_def bind_exec_def example_step2 example_step3 step4_def s5 step6_def
          example_world_sel)
  then show ?thesis using s5 len d1 example_glob by blast
qed




text \<open>
  C5: the report built from the three descriptions \<open>desc-0\<close>, \<open>desc-1\<close>, \<open>desc-2\<close> and
  the transcript \<open>hello world\<close> lists the entries tagged \<open>@ 00:00\<close>, \<open>@ 00:02\<close>,
  \<open>@ 00:04\<close> in that order and ends with the transcript section, whose last characters
  are \<open>hello world\<close>; the tag of index \<open>i\<close> is \<open>i * 2 div 60\<close> and \<open>i * 2 mod 60\<close>, two
  digits each.
\<close>

theorem report_round_trip:
  "build_report w video [''desc-0'', ''desc-1'', ''desc-2''] ''hello world'' =
     report_head w video [''desc-0'', ''desc-1'', ''desc-2''] @
     key_observations [''desc-0'', ''desc-1'', ''desc-2''] @
     ''=== DETAILED FRAME DESCRIPTIONS ===\<newline>'' @
     ''\<newline>[1] @ 00:00\<newline>desc-0\<newline>'' @
     ''\<newline>[2] @ 00:02\<newline>desc-1\<newline>'' @
     ''\<newline>[3] @ 00:04\<newline>desc-2\<newline>'' @
     ''\<newline>\<newline>=== AUDIO TRANSCRIPT ===\<newline>'' @
     ''hello world'' \<and>
   mm_ss (timestamp_of i) = format_0d 2 (i * 2 div 60) @ '':'' @ format_0d 2 (i * 2 mod 60)"
  by (simp add: build_report_def Let_def frame_entry_def mm_ss_def timestamp_of_def
        py_divmod_def format_0d_2_digit str_nat.simps digit_char_eval)

text \<open>
  C6: the report is its head, the key observations, the entries of the descriptions in
  index order and the transcript; the entry of index \<open>i\<close> bears the number \<open>i + 1\<close>, the
  tag of the timestamp \<open>i * 2\<close> (two seconds is the interval of the notebook) as minutes
  and seconds, and the description of index \<open>i\<close>. The timestamps increase strictly with
  the index, and so do the tags as long as the minutes have two digits.
\<close>

theorem report_timestamps_increasing:
  "build_report w video frame_descriptions transcript =
     report_head w video frame_descriptions @
     key_observations frame_descriptions @
     ''=== DETAILED FRAME DESCRIPTIONS ===\<newline>'' @
     concat (map (\<lambda>i. ''\<newline>['' @ str_nat (i + 1) @ ''] @ '' @
                       format_0d 2 (i * 2 div 60) @ '':'' @ format_0d 2 (i * 2 mod 60) @
                       ''\<newline>'' @ frame_descriptions ! i @ ''\<newline>'')
                 [0..<length frame_descriptions]) @
     ''\<newline>\<newline>=== AUDIO TRANSCRIPT ===\<newline>'' @ transcript \<and>
   (\<forall>i. timestamp_of i = i * 2 \<and>
        timestamp_of i div 60 * 60 + timestamp_of i mod 60 = i * 2) \<and>
   (\<forall>i j. i < j \<longrightarrow> timestamp_of i < timestamp_of j) \<and>
   (\<forall>i < 3000. mm_ss (timestamp_of i) =
        [digit_char (i * 2 div 60 div 10), digit_char (i * 2 div 60 mod 10), CHR '':'',
         digit_char (i * 2 mod 60 div 10), digit_char (i * 2 mod 60 mod 10)]) \<and>
   (\<forall>i j. i < j \<and> j < 3000 \<longrightarrow> mm_ss (timestamp_of i) < mm_ss (timestamp_of j))"
proof -
  have A: "build_report w video frame_descriptions transcript =
     report_head w video frame_descriptions @
     key_observations frame_descriptions @
     ''=== DETAILED FRAME DESCRIPTIONS ===\<newline>'' @
     concat (map (\<lambda>i. ''\<newline>['' @ str_nat (i + 1) @ ''] @ '' @
                       format_0d 2 (i * 2 div 60) @ '':'' @ format_0d 2 (i * 2 mod 60) @
                       ''\<newline>'' @ frame_descriptions ! i @ ''\<newline>'')
                 [0..<length frame_descriptions]) @
     ''\<newline>\<newline>=== AUDIO TRANSCRIPT ===\<newline>'' @ transcript"
    by (simp add: build_report_def Let_def detail_loop_eq frame_entry_def mm_ss_def
          timestamp_of_def py_divmod_def)
  have B: "\<forall>i. timestamp_of i = i * 2 \<and>
        timestamp_of i div 60 * 60 + timestamp_of i mod 60 = i * 2"
    unfolding timestamp_of_def by (simp only: div_mult_mod_eq) simp
  have C: "\<forall>i j. i < j \<longrightarrow> timestamp_of i < timestamp_of j"
    by (simp add: timestamp_of_def)
  have D: "\<forall>i < 3000. mm_ss (timestamp_of i) =
        [digit_char (i * 2 div 60 div 10), digit_char (i * 2 div 60 mod 10), CHR '':'',
         digit_char (i * 2 mod 60 div 10), digit_char (i * 2 mod 60 mod 10)]"
    by (simp add: timestamp_of_def mm_ss_digits)
  have E: "\<forall>i j. i < j \<and> j < 3000 \<longrightarrow> mm_ss (timestamp_of i) < mm_ss (timestamp_of j)"
    by (simp add: timestamp_of_def mm_ss_less)
  show ?thesis using A B C D E by blast
qed

theorem report_timestamps_increasing_witness:
  "build_report (example_world (example_capture 25 120) (Some ()) Inr)
       \<lparr>audio = Some (), duration_1f = ''4.8''\<rparr> [''a dog'', ''a cat''] ''hello world'' =
     report_head (example_world (example_capture 25 120) (Some ()) Inr)
       \<lparr>audio = Some (), duration_1f = ''4.8''\<rparr> [''a dog'', ''a cat''] @
     ''- First frame: a dog...\<newline>- Last frame: a cat...\<newline>\<newline>'' @
     ''=== DETAILED FRAME DESCRIPTIONS ===\<newline>'' @
     ''\<newline>[1] @ 00:00\<newline>a dog\<newline>'' @ ''\<newline>[2] @ 00:02\<newline>a cat\<newline>'' @
     ''\<newline>\<newline>=== AUDIO TRANSCRIPT ===\<newline>hello world'' \<and>
   timestamp_of 0 = 0 \<and> timestamp_of 1 = 2 \<and> timestamp_of 0 < timestamp_of 1 \<and>
   mm_ss (timestamp_of 1) = ''00:02'' \<and>
   mm_ss (timestamp_of 0) < mm_ss (timestamp_of 1)"
proof -
  note T = report_timestamps_increasing[of
      "example_world (example_capture 25 120) (Some ()) Inr"
      "\<lparr>audio = Some (), duration_1f = ''4.8''\<rparr>" "[''a dog'', ''a cat'']" "''hello world''"]
  have a: "(0::nat) < 1 \<and> (1::nat) < 3000" by simp
  have b: "(1::nat) < 3000" by simp
  note A = T[THEN conjunct1]
  note B = T[THEN conjunct2, THEN conjunct1]
  note C = T[THEN conjunct2, THEN conjunct2, THEN conjunct1, THEN spec, THEN spec, THEN mp]
  note D = T[THEN conjunct2, THEN conjunct2, THEN conjunct2, THEN conjunct1, THEN spec, THEN mp, OF b]
  note E = T[THEN conjunct2, THEN conjunct2, THEN conjunct2, THEN conjunct2, THEN spec, THEN spec,
      THEN mp, OF a]
  have d: "mm_ss (timestamp_of 1) = ''00:02''"
    using D by (simp add: digit_char_eval)
  have r: "build_report (example_world (example_capture 25 120) (Some ()) Inr)
       \<lparr>audio = Some (), duration_1f = ''4.8''\<rparr> [''a dog'', ''a cat''] ''hello world'' =
     report_head (example_world (example_capture 25 120) (Some ()) Inr)
       \<lparr>audio = Some (), duration_1f = ''4.8''\<rparr> [''a dog'', ''a cat''] @
     ''- First frame: a dog...\<newline>- Last frame: a cat...\<newline>\<newline>'' @
     ''=== DETAILED FRAME DESCRIPTIONS ===\<newline>'' @
     ''\<newline>[1] @ 00:00\<newline>a dog\<newline>'' @ ''\<newline>[2] @ 00:02\<newline>a cat\<newline>'' @
     ''\<newline>\<newline>=== AUDIO TRANSCRIPT ===\<newline>hello world''"
    unfolding A
    by (simp add: key_observations_def slice_to_def format_0d_2_digit str_nat.simps
          digit_char_eval upt_conv_Cons del: upt_Suc)
  show ?thesis using r d E B by (simp add: timestamp_of_def)
qed

text \<open>
  C7: when Step 2 ends having written no frame, the folder is empty (what an earlier run
  left was removed), so the guard of Step 5 raises \<open>FileNotFoundError\<close> (No frames found
  for analysis). The run of all cells then ends with an exception and never enters Step 6
  nor writes the report; the exception is that of the guard whenever the cells between
  Step 2 and Step 5 (audio, transcription, loading of the vision model) end normally.
\<close>

theorem empty_analysis_aborts:
  assumes "step2 w = (evs, Inr (0, fol))"
  shows "step5 w fol = ([Step 5], Inl no_frames_found) \<and>
     Step 6 \<notin> set (fst (run_all w)) \<and>
     WriteReport \<notin> set (fst (run_all w)) \<and>
     (\<exists>e. snd (run_all w) = Inl e) \<and>
     ((\<exists>r. snd (step3 w) = Inr r) \<and> phi_from_pretrained w = None \<longrightarrow>
        snd (run_all w) = Inl no_frames_found)"
proof -
  from step2_folder(1,3)[OF assms] have fol: "fol = []" and evs: "evs = [Step 2]"
    by simp_all
  have g: "sort (glob_jpg fol) = []" by (simp add: fol glob_jpg_def)
  have s5: "step5 w fol = ([Step 5], Inl no_frames_found)" by (rule step5_empty[OF g])
  have e3: "set (fst (step3 w)) \<subseteq> {Step 3, WriteAudiofile, LoadWhisper, Transcribe}"
    by (rule step3_events)
  obtain l3 r3 where s3: "step3 w = (l3, r3)" by (cases "step3 w")
  have R: "run_all w =
      (case r3 of
         Inl e \<Rightarrow> ([Step 2] @ l3, Inl e)
       | Inr x \<Rightarrow>
          (case phi_from_pretrained w of
             Some e \<Rightarrow> ([Step 2] @ l3 @ [Step 4, LoadPhi], Inl e)
           | None \<Rightarrow> ([Step 2] @ l3 @ [Step 4, LoadPhi, Step 5], Inl no_frames_found)))"
    by (simp add: run_all_after_step2[OF assms] evs s3 s5 bind_exec_def step4_def
          split: sum.splits option.splits prod.splits)
  from e3 s3 have l3: "Step 6 \<notin> set l3" "WriteReport \<notin> set l3" by auto
  show ?thesis
    using l3 s5 s3 by (auto simp: R split: sum.splits option.splits)
qed

theorem empty_analysis_aborts_witness:
  "step2 (example_world (example_capture 25 0) (Some ()) Inr) = ([Step 2], Inr (0, [])) \<and>
   run_all (example_world (example_capture 25 0) (Some ()) Inr) =
     ([Step 2, Step 3, WriteAudiofile, LoadWhisper, Transcribe, Step 4, LoadPhi, Step 5],
      Inl no_frames_found)"
proof -
  have s2: "step2 (example_world (example_capture 25 0) (Some ()) Inr) = ([Step 2], Inr (0, []))"
    by (simp add: eval_defs)
  have s3: "step3 (example_world (example_capture 25 0) (Some ()) Inr) =
      ([Step 3, WriteAudiofile, LoadWhisper, Transcribe],
       Inr (\<lparr>audio = Some (), duration_1f = ''4.8''\<rparr>, ''hello world''))"
    by (simp add: step3_def example_world_sel)
  have "snd (run_all (example_world (example_capture 25 0) (Some ()) Inr)) = Inl no_frames_found"
    using empty_analysis_aborts[OF s2] s3 by (simp add: example_world_sel)
  moreover have "fst (run_all (example_world (example_capture 25 0) (Some ()) Inr)) =
     [Step 2, Step 3, WriteAudiofile, LoadWhisper, Transcribe, Step 4, LoadPhi, Step 5]"
    by (simp add: run_all_def bind_exec_def s2 s3 step4_def step5_def glob_jpg_def
          example_world_sel)
  ultimately show ?thesis using s2 by (simp add: prod_eq_iff)
qed

text \<open>
  C8: for a clip without audio stream (\<open>video.audio\<close> is \<open>None\<close>), Step 3 raises on
  \<open>video.audio.write_audiofile\<close> before Whisper is loaded or called. The run of all cells
  ends with an exception and never transcribes; the exception is that of Step 3 whenever
  Step 2 before it ended normally.
\<close>

theorem no_audio_aborts:
  assumes "open_clip w = Inr video" and "audio video = None"
  shows "step3 w = ([Step 3], Inl none_has_no_write_audiofile) \<and>
     Transcribe \<notin> set (fst (run_all w)) \<and>
     LoadWhisper \<notin> set (fst (run_all w)) \<and>
     (\<exists>e. snd (run_all w) = Inl e) \<and>
     ((\<exists>r. snd (step2 w) = Inr r) \<longrightarrow> snd (run_all w) = Inl none_has_no_write_audiofile)"
proof -
  have s3: "step3 w = ([Step 3], Inl none_has_no_write_audiofile)"
    using assms by (simp add: step3_def)
  have e2: "set (fst (step2 w)) \<subseteq> insert (Step 2) (range ImWrite)" by (rule step2_events)
  obtain l2 r2 where s2: "step2 w = (l2, r2)" by (cases "step2 w")
  have R: "run_all w =
      (case r2 of Inl e \<Rightarrow> (l2, Inl e)
       | Inr x \<Rightarrow> (l2 @ [Step 3], Inl none_has_no_write_audiofile))"
    by (simp add: run_all_def bind_exec_def s2 s3 split: sum.splits prod.splits)
  from e2 s2 have "Transcribe \<notin> set l2" "LoadWhisper \<notin> set l2" by auto
  then show ?thesis using s3 s2 by (auto simp: R split: sum.splits)
qed

theorem no_audio_aborts_witness:
  "open_clip (example_world (example_capture 25 120) None Inr)
     = Inr \<lparr>audio = None, duration_1f = ''4.8''\<rparr> \<and>
   step3 (example_world (example_capture 25 120) None Inr)
     = ([Step 3], Inl none_has_no_write_audiofile) \<and>
   snd (run_all (example_world (example_capture 25 120) None Inr))
     = Inl none_has_no_write_audiofile \<and>
   Transcribe \<notin> set (fst (run_all (example_world (example_capture 25 120) None Inr)))"
proof -
  have s2: "step2 (example_world (example_capture 25 120) None Inr) =
   ([Step 2, ImWrite ''frames/frame_0000.jpg'', ImWrite ''frames/frame_0001.jpg'',
     ImWrite ''frames/frame_0002.jpg''],
    Inr (3, [(''frame_0000.jpg'', 0), (''frame_0001.jpg'', 50), (''frame_0002.jpg'', 100)]))"
    by (simp add: eval_defs)
  show ?thesis
    using no_audio_aborts[of "example_world (example_capture 25 120) None Inr"
        "\<lparr>audio = None, duration_1f = ''4.8''\<rparr>"] s2
    by (simp add: example_world_sel)
qed

text \<open>
  C9: Step 2 ends normally only when the step \<open>int(fps * 2)\<close> is at least 1. For a
  decoded rate strictly between 0 and 0.5 the fallback does not apply, the step is 0, and
  Step 2 raises without writing a frame: \<open>range\<close> refuses the zero step.
\<close>

theorem zero_step_raises:
  "(step2 w = (evs, Inr r) \<longrightarrow> 1 \<le> frame_interval (fallback_fps (CAP_PROP_FPS (vidcap w)))) \<and>
   (0 < CAP_PROP_FPS (vidcap w) \<and> CAP_PROP_FPS (vidcap w) < 1 / 2 \<longrightarrow>
      frame_interval (fallback_fps (CAP_PROP_FPS (vidcap w))) = 0 \<and>
      (\<exists>e. step2 w = ([Step 2], Inl e)) \<and>
      (isOpened (vidcap w) \<longrightarrow>
         step2 w = ([Step 2], Inl (ValueError ''range() arg 3 must not be zero''))))"
proof -
  have A: "step2 w = (evs, Inr r) \<longrightarrow> 1 \<le> frame_interval (fallback_fps (CAP_PROP_FPS (vidcap w)))"
    using step2_cases[of w] by auto
  have B: "frame_interval (fallback_fps (CAP_PROP_FPS (vidcap w))) = 0 \<Longrightarrow>
      (\<exists>e. step2 w = ([Step 2], Inl e)) \<and>
      (isOpened (vidcap w) \<longrightarrow>
         step2 w = ([Step 2], Inl (ValueError ''range() arg 3 must not be zero'')))"
    using step2_cases[of w] by auto
  show ?thesis using A B frame_interval_small[of "CAP_PROP_FPS (vidcap w)"] by blast
qed

theorem zero_step_raises_witness:
  "0 < CAP_PROP_FPS (vidcap (example_world (example_capture 0.25 120) (Some ()) Inr)) \<and>
   CAP_PROP_FPS (vidcap (example_world (example_capture 0.25 120) (Some ()) Inr)) < 1 / 2 \<and>
   isOpened (vidcap (example_world (example_capture 0.25 120) (Some ()) Inr)) \<and>
   frame_interval (fallback_fps 0.25) = 0 \<and>
   step2 (example_world (example_capture 0.25 120) (Some ()) Inr)
     = ([Step 2], Inl (ValueError ''range() arg 3 must not be zero''))"
  using zero_step_raises[of "example_world (example_capture 0.25 120) (Some ()) Inr"]
  by (simp add: example_world_sel example_capture_def)

text \<open>
  C10: when Step 2 has saved at most 9999 frames, the sorted listing of the folder, in
  whatever order the files are listed, is the paths of the indices \<open>0, 1, ...\<close> in
  ascending order, which is the order in which Step 2 wrote them; the file of index \<open>i\<close>
  holds the \<open>i\<close>-th decoded frame, and Step 5 analyzes the files in that order.
\<close>

theorem sorted_frames_in_order:
  assumes "step2 w = (evs, Inr (saved_count, fol))" and "saved_count \<le> 9999"
  shows "evs = Step 2 # map (\<lambda>i. ImWrite (frame_path i)) [0..<saved_count] \<and>
     fol = zip (map frame_name [0..<saved_count])
               (sampled (vidcap w) (frame_numbers (vidcap w))) \<and>
     sort (glob_jpg fol) = map frame_path [0..<saved_count] \<and>
     (\<forall>listing. distinct listing \<and> set listing = set (glob_jpg fol) \<longrightarrow>
        sort listing = map frame_path [0..<saved_count]) \<and>
     (0 < saved_count \<longrightarrow>
        step5 w fol =
          (Step 5 # map (\<lambda>i. AnalyzeImage (frame_path i)) [0..<saved_count],
           Inr (map (\<lambda>i. analyze_image_with_phi w (frame_path i)) [0..<saved_count])))"
proof -
  have le: "saved_count \<le> 10000" using assms(2) by simp
  note F = step2_folder[OF assms(1) le]
  have G: "glob_jpg fol = map frame_path [0..<saved_count]"
    by (rule glob_frame_names[OF step2_names[OF assms(1) le]])
  have S: "sort (glob_jpg fol) = map frame_path [0..<saved_count]"
    by (simp add: G sort_frame_paths[OF le])
  have D: "distinct (glob_jpg fol)" by (simp only: G distinct_frame_paths[OF le])
  have A: "\<forall>listing. distinct listing \<and> set listing = set (glob_jpg fol) \<longrightarrow>
        sort listing = map frame_path [0..<saved_count]"
    using sorted_glob_any_order[OF _ D] S by auto
  have "0 < saved_count \<Longrightarrow> sort (glob_jpg fol) \<noteq> []" by (simp add: S)
  then have B: "0 < saved_count \<longrightarrow>
        step5 w fol =
          (Step 5 # map (\<lambda>i. AnalyzeImage (frame_path i)) [0..<saved_count],
           Inr (map (\<lambda>i. analyze_image_with_phi w (frame_path i)) [0..<saved_count]))"
    using step5_nonempty[of fol w] by (auto simp: S o_def)
  show ?thesis using F(1,3) S A B by blast
qed

theorem sorted_frames_in_order_witness:
  "step2 (example_world (example_capture 25 120) (Some ()) Inr) =
     ([Step 2, ImWrite ''frames/frame_0000.jpg'', ImWrite ''frames/frame_0001.jpg'',
       ImWrite ''frames/frame_0002.jpg''],
      Inr (3, [(''frame_0000.jpg'', 0), (''frame_0001.jpg'', 50), (''frame_0002.jpg'', 100)])) \<and>
   (3::nat) \<le> 9999 \<and>
   sort [''frames/frame_0002.jpg'', ''frames/frame_0000.jpg'', ''frames/frame_0001.jpg'']
     = map frame_path [0..<3] \<and>
   step5 (example_world (example_capture 25 120) (Some ()) Inr)
       [(''frame_0000.jpg'', 0), (''frame_0001.jpg'', 50), (''frame_0002.jpg'', 100)] =
     ([Step 5, AnalyzeImage ''frames/frame_0000.jpg'', AnalyzeImage ''frames/frame_0001.jpg'',
       AnalyzeImage ''frames/frame_0002.jpg''],
      Inr [''frames/frame_0000.jpg'', ''frames/frame_0001.jpg'', ''frames/frame_0002.jpg''])"
proof -
  let ?w = "example_world (example_capture 25 120) (Some ()) Inr"
  let ?fol = "[(''frame_0000.jpg'', 0::nat), (''frame_0001.jpg'', 50), (''frame_0002.jpg'', 100)]"
  have s2: "step2 ?w =
     ([Step 2, ImWrite ''frames/frame_0000.jpg'', ImWrite ''frames/frame_0001.jpg'',
       ImWrite ''frames/frame_0002.jpg''], Inr (3, ?fol))"
    by (simp add: eval_defs)
  have p: "map frame_path [0..<3] =
      [''frames/frame_0000.jpg'', ''frames/frame_0001.jpg'', ''frames/frame_0002.jpg'']"
    by (simp add: upt_conv_Cons frame_path_def frame_name_def format_0d_4_digit digit_char_eval
          output_folder_def del: upt_Suc)
  have g: "set (glob_jpg ?fol) =
      {''frames/frame_0000.jpg'', ''frames/frame_0001.jpg'', ''frames/frame_0002.jpg''}"
    by (simp add: glob_jpg_def glob_match_jpg_def endswith_def output_folder_def)
  have le: "(3::nat) \<le> 9999" by simp
  note T = sorted_frames_in_order[OF s2 le]
  note A = T[THEN conjunct2, THEN conjunct2, THEN conjunct2, THEN conjunct1]
  note B = T[THEN conjunct2, THEN conjunct2, THEN conjunct2, THEN conjunct2]
  have d: "distinct [''frames/frame_0002.jpg'', ''frames/frame_0000.jpg'', ''frames/frame_0001.jpg'']"
    by simp
  have e: "set [''frames/frame_0002.jpg'', ''frames/frame_0000.jpg'', ''frames/frame_0001.jpg'']
      = set (glob_jpg ?fol)"
    unfolding g by (simp add: insert_commute)
  have a: "sort [''frames/frame_0002.jpg'', ''frames/frame_0000.jpg'', ''frames/frame_0001.jpg'']
      = map frame_path [0..<3]"
    using A[THEN spec, THEN mp, OF conjI, OF d e] .
  have m1: "map (\<lambda>i. AnalyzeImage (frame_path i)) [0..<3] = map AnalyzeImage (map frame_path [0..<3])"
    by (simp only: map_map o_def)
  have m2: "map (\<lambda>i. analyze_image_with_phi ?w (frame_path i)) [0..<3]
      = map (analyze_image_with_phi ?w) (map frame_path [0..<3])"
    by (simp only: map_map o_def)
  have z: "(0::nat) < 3" by simp
  have b: "step5 ?w ?fol =
     ([Step 5, AnalyzeImage ''frames/frame_0000.jpg'', AnalyzeImage ''frames/frame_0001.jpg'',
       AnalyzeImage ''frames/frame_0002.jpg''],
      Inr [''frames/frame_0000.jpg'', ''frames/frame_0001.jpg'', ''frames/frame_0002.jpg''])"
    unfolding B[THEN mp, OF z] m1 m2 p
    by (simp add: example_world_sel analyze_image_with_phi_def)
  show ?thesis using s2 a b by simp
qed

end
